theory Spec2Isabelle
  imports Main
begin

section \<open>Bytes, slices and the byte store\<close>

text \<open>
  The package \<^verbatim>\<open>gwt\<close> (file \<^verbatim>\<open>gwt/verifier.go\<close>) works on Go strings and on
  byte slices. A Go byte is modelled by \<^typ>\<open>char\<close> (eight bits), a Go string by
  \<^typ>\<open>string\<close>. Functions that only read their arguments take and return lists.
  \<^verbatim>\<open>B64Decode\<close> with \<^verbatim>\<open>reuse=true\<close> writes into the buffer it reads, so the functions
  on its path work on an explicit store: one flat array of bytes, in which a slice is an
  offset and a length, and \<^verbatim>\<open>make\<close> appends a zeroed region.
\<close>

type_synonym byte = char
type_synonym bytes = "char list"
type_synonym mem = "char list"

record slice =
  ptr :: nat
  len :: nat

definition rd :: "mem \<Rightarrow> slice \<Rightarrow> bytes" where
  "rd m s = take (len s) (drop (ptr s) m)"

definition inside :: "mem \<Rightarrow> slice \<Rightarrow> bool" where
  "inside m s = (ptr s + len s \<le> length m)"

definition make_bytes :: "mem \<Rightarrow> nat \<Rightarrow> mem \<times> slice"
  \<comment> \<open>\<^verbatim>\<open>make([]byte, size)\<close>: a fresh zeroed region, disjoint from everything allocated before\<close>
  where
  "make_bytes m n = (m @ replicate n (CHR 0x00), \<lparr>ptr = length m, len = n\<rparr>)"

definition sub :: "slice \<Rightarrow> nat \<Rightarrow> nat \<Rightarrow> slice"
  \<comment> \<open>\<^verbatim>\<open>s[a:b]\<close>; the callers below only use it with \<open>a \<le> b \<le> len s\<close>\<close>
  where
  "sub s a b = \<lparr>ptr = ptr s + a, len = b - a\<rparr>"

section \<open>Standard library functions used by the package\<close>

text \<open>\<^verbatim>\<open>bytes.IndexByte\<close>: the index of the first occurrence, \<open>-1\<close> when there is none.\<close>

fun IndexByte_from :: "bytes \<Rightarrow> byte \<Rightarrow> nat \<Rightarrow> int" where
  "IndexByte_from [] c i = - 1"
| "IndexByte_from (x # xs) c i = (if x = c then int i else IndexByte_from xs c (Suc i))"

definition IndexByte :: "bytes \<Rightarrow> byte \<Rightarrow> int" where
  "IndexByte s c = IndexByte_from s c 0"

text \<open>\<^verbatim>\<open>bytes.LastIndexByte\<close>: the loop \<^verbatim>\<open>for i := len(s)-1; i >= 0; i--\<close>.\<close>

fun LastIndexByte_upto :: "bytes \<Rightarrow> byte \<Rightarrow> nat \<Rightarrow> int" where
  "LastIndexByte_upto s c 0 = - 1"
| "LastIndexByte_upto s c (Suc i) = (if s ! i = c then int i else LastIndexByte_upto s c i)"

definition LastIndexByte :: "bytes \<Rightarrow> byte \<Rightarrow> int" where
  "LastIndexByte s c = LastIndexByte_upto s c (length s)"

text \<open>
  \<^verbatim>\<open>strings.ContainsRune(s, r)\<close> is \<^verbatim>\<open>IndexRune(s, r) >= 0\<close>, which for a rune below
  \<^verbatim>\<open>0x80\<close> (the only use here is \<^verbatim>\<open>':'\<close>) is \<^verbatim>\<open>IndexByte\<close>.
\<close>

definition ContainsRune :: "string \<Rightarrow> char \<Rightarrow> bool" where
  "ContainsRune s r = (IndexByte s r \<ge> 0)"

text \<open>
  \<^verbatim>\<open>strings.SplitN(s, sep, n)\<close> for a one-byte separator: \<^verbatim>\<open>n == 0\<close> gives the empty
  slice; \<^verbatim>\<open>n > 0\<close> gives at most \<open>n\<close> substrings, the last one the unsplit rest
  (\<^verbatim>\<open>genSplit\<close> cuts at most \<open>n - 1\<close> times). The package calls it with \<open>n = 2\<close>
  only; a negative \<open>n\<close> is not modelled.
\<close>

fun genSplit :: "string \<Rightarrow> char \<Rightarrow> nat \<Rightarrow> string list" where
  "genSplit s sep 0 = [s]"
| "genSplit s sep (Suc k) =
     (let m = IndexByte s sep in
      if m < 0 then [s]
      else take (nat m) s # genSplit (drop (nat m + 1) s) sep k)"

definition SplitN :: "string \<Rightarrow> char \<Rightarrow> nat \<Rightarrow> string list" where
  "SplitN s sep n = (if n = 0 then [] else genSplit s sep (n - 1))"

text \<open>
  \<^verbatim>\<open>strings.ToUpper\<close>: a string of ASCII bytes only is mapped byte by byte; any other
  string goes through \<^verbatim>\<open>strings.Map(unicode.ToUpper, s)\<close>, whose Unicode tables are
  not reproduced: that path is the parameter \<open>U\<close>.
\<close>

definition isASCII :: "string \<Rightarrow> bool" where
  "isASCII s = list_all (\<lambda>c. (of_char c :: nat) < 128) s"

definition upperByte :: "char \<Rightarrow> char" where
  "upperByte c =
     (let n = (of_char c :: nat) in if 97 \<le> n \<and> n \<le> 122 then char_of (n - 32) else c)"

definition ToUpper :: "(string \<Rightarrow> string) \<Rightarrow> string \<Rightarrow> string" where
  "ToUpper U s = (if isASCII s then map upperByte s else U s)"

text \<open>\<^verbatim>\<open>big.Int.SetBytes\<close>: a big-endian unsigned integer.\<close>

definition SetBytes :: "bytes \<Rightarrow> int" where
  "SetBytes bs = foldl (\<lambda>acc b. acc * 256 + of_char b) 0 bs"

section \<open>Base64, URL alphabet, no padding\<close>

text \<open>
  \<^verbatim>\<open>turbo64\<close> is the third-party module \<^verbatim>\<open>github.com/cristalhq/base64\<close>; the package
  uses its \<^verbatim>\<open>RawURLEncoding\<close>, which its test \<^verbatim>\<open>TestEqualBase64Turbo64\<close> checks against
  \<^verbatim>\<open>encoding/base64\<close>. It is modelled as the codec of RFC 4648, section 5, without
  padding: the decoder goes through the input from left to right, reads a group of four
  characters, and only then stores the three bytes they give. \<^verbatim>\<open>Decode(dst, src)\<close>
  works on the store, so that \<open>dst\<close> and \<open>src\<close> may be the same slice.
\<close>

definition EncodedLen :: "nat \<Rightarrow> nat" where
  "EncodedLen n = (n * 8 + 5) div 6"

definition DecodedLen :: "nat \<Rightarrow> nat" where
  "DecodedLen n = n * 6 div 8"

definition alphabet :: string where
  "alphabet = ''ABCDEFGHIJKLMNOPQRSTUVWXYZabcdefghijklmnopqrstuvwxyz0123456789-_''"

definition b64chr :: "nat \<Rightarrow> char" where
  "b64chr n = alphabet ! (n mod 64)"

definition b64val :: "char \<Rightarrow> nat option" where
  "b64val c =
     (let n = (of_char c :: nat) in
      if 65 \<le> n \<and> n \<le> 90 then Some (n - 65)
      else if 97 \<le> n \<and> n \<le> 122 then Some (n - 71)
      else if 48 \<le> n \<and> n \<le> 57 then Some (n + 4)
      else if c = CHR ''-'' then Some 62
      else if c = CHR ''_'' then Some 63
      else None)"

fun enc :: "bytes \<Rightarrow> bytes" where
  "enc [] = []"
| "enc [a] =
     (let x = (of_char a :: nat) in [b64chr (x div 4), b64chr ((x mod 4) * 16)])"
| "enc [a, b] =
     (let x = (of_char a :: nat); y = (of_char b :: nat) in
      [b64chr (x div 4), b64chr ((x mod 4) * 16 + y div 16), b64chr ((y mod 16) * 4)])"
| "enc (a # b # c # rest) =
     (let x = (of_char a :: nat); y = (of_char b :: nat); z = (of_char c :: nat) in
      b64chr (x div 4) # b64chr ((x mod 4) * 16 + y div 16) #
      b64chr ((y mod 16) * 4 + z div 64) # b64chr (z mod 64) # enc rest)"

definition Encode :: "bytes \<Rightarrow> bytes \<Rightarrow> bytes"
  \<comment> \<open>\<^verbatim>\<open>Encode(dst, src)\<close> on a \<open>dst\<close> no other slice shares: the new contents of \<open>dst\<close>\<close>
  where
  "Encode dst src = enc src @ drop (length (enc src)) dst"

section \<open>Errors\<close>

text \<open>
  The sentinel errors of the package (\<^verbatim>\<open>ErrThreeParts\<close> and the others) are declared in
  another file of the package; only their identity matters.
  \<^verbatim>\<open>log.ParamError(algo + notSupportedNotice).Err()\<close> and
  \<^verbatim>\<open>log.ParamErrorf("Unexpected AlgoKey scheme %q in algoKey=%q", ...).Err()\<close> are both
  parameter errors of the logger and differ by their message; the text of
  \<^verbatim>\<open>notSupportedNotice\<close> is declared elsewhere, so each message is kept as the values
  it is built from. \<open>DecodeKeyError\<close> is what \<^verbatim>\<open>gg.DecodeHexOrB64\<close> returns,
  \<open>CorruptInput\<close> what the base64 decoder returns, \<open>X509Error\<close> what
  \<^verbatim>\<open>x509.ParsePKIXPublicKey\<close> returns, \<open>ClaimError\<close> is \<^verbatim>\<open>claimError{err, payload}\<close>
  and \<open>ValidationError\<close> the error of the JWT library with its flags.
\<close>

datatype vflag = ValidationErrorExpired | ValidationErrorIssuedAt | ValidationErrorNotValidYet

datatype error =
    ErrColumnInKey
  | ErrHMACKey
  | ErrECDSAPubKey
  | ErrThreeParts
  | ErrNoBase64JWT
  | ErrJWTSignature
  | ParamErrorNotSupported string
  | ParamErrorUnexpectedScheme string string
  | DecodeKeyError
  | CorruptInput
  | X509Error
  | ClaimError string bytes
  | ValidationError "vflag list"

section \<open>Decoding on the store\<close>

text \<open>
  \<open>decode_quads m d s i k\<close> decodes \<open>k\<close> groups of four characters, from group \<open>i\<close>
  on, of the source that starts at offset \<open>s\<close>, and stores the bytes of group \<open>j\<close> at
  \<open>d + 3 * j\<close>. It stops at the first character outside the alphabet. The boolean says
  whether all groups were valid.
\<close>

fun decode_quads :: "mem \<Rightarrow> nat \<Rightarrow> nat \<Rightarrow> nat \<Rightarrow> nat \<Rightarrow> mem \<times> bool" where
  "decode_quads m d s i 0 = (m, True)"
| "decode_quads m d s i (Suc k) =
     (case (b64val (m ! (s + 4 * i)), b64val (m ! (s + 4 * i + 1)),
            b64val (m ! (s + 4 * i + 2)), b64val (m ! (s + 4 * i + 3))) of
        (Some a, Some b, Some c, Some e) \<Rightarrow>
          decode_quads
            (m[d + 3 * i := char_of (a * 4 + b div 16),
               d + 3 * i + 1 := char_of ((b mod 16) * 16 + c div 4),
               d + 3 * i + 2 := char_of ((c mod 4) * 64 + e)])
            d s (Suc i) k
      | _ \<Rightarrow> (m, False))"

text \<open>
  The last group of an unpadded input has two or three characters (one or two bytes);
  a single left-over character is an error. \<open>q\<close> is the number of full groups.
\<close>

definition decode_tail :: "mem \<Rightarrow> nat \<Rightarrow> nat \<Rightarrow> nat \<Rightarrow> nat \<Rightarrow> mem \<times> (error + nat)" where
  "decode_tail m d s q r =
     (if r = 0 then (m, Inr (3 * q))
      else if r = 1 then (m, Inl CorruptInput)
      else if r = 2 then
        (case (b64val (m ! (s + 4 * q)), b64val (m ! (s + 4 * q + 1))) of
           (Some a, Some b) \<Rightarrow>
             (m[d + 3 * q := char_of (a * 4 + b div 16)], Inr (3 * q + 1))
         | _ \<Rightarrow> (m, Inl CorruptInput))
      else
        (case (b64val (m ! (s + 4 * q)), b64val (m ! (s + 4 * q + 1)),
               b64val (m ! (s + 4 * q + 2))) of
           (Some a, Some b, Some c) \<Rightarrow>
             (m[d + 3 * q := char_of (a * 4 + b div 16),
                d + 3 * q + 1 := char_of ((b mod 16) * 16 + c div 4)], Inr (3 * q + 2))
         | _ \<Rightarrow> (m, Inl CorruptInput)))"

definition Decode :: "mem \<Rightarrow> slice \<Rightarrow> slice \<Rightarrow> mem \<times> (error + nat)"
  \<comment> \<open>\<^verbatim>\<open>RawURLEncoding.Decode(dst, src)\<close>: the store afterwards, and the number of bytes written\<close>
  where
  "Decode m dst src =
     (let q = len src div 4; r = len src mod 4 in
      case decode_quads m (ptr dst) (ptr src) 0 q of
        (m1, False) \<Rightarrow> (m1, Inl CorruptInput)
      | (m1, True) \<Rightarrow> decode_tail m1 (ptr dst) (ptr src) q r)"

text \<open>
  \<^verbatim>\<open>B64Decode\<close> (\<^verbatim>\<open>gwt/verifier.go\<close>): with \<^verbatim>\<open>reuse\<close> the output slice is the input
  slice itself, otherwise a fresh one of \<^verbatim>\<open>DecodedLen(len(b64))\<close> bytes. On success it
  returns \<^verbatim>\<open>out[:n]\<close>.
\<close>

definition B64Decode :: "mem \<Rightarrow> slice \<Rightarrow> bool \<Rightarrow> mem \<times> (error + slice)" where
  "B64Decode m b64 reuse =
     (let (m0, out) = (if \<not> reuse then make_bytes m (DecodedLen (len b64)) else (m, b64)) in
      case Decode m0 out b64 of
        (m1, Inl err) \<Rightarrow> (m1, Inl err)
      | (m1, Inr n) \<Rightarrow> (m1, Inr (sub out 0 n)))"

definition B64Decode_bytes :: "mem \<Rightarrow> slice \<Rightarrow> bool \<Rightarrow> error + bytes"
  \<comment> \<open>what the caller of \<^verbatim>\<open>B64Decode\<close> reads through the slice it gets back\<close>
  where
  "B64Decode_bytes m b64 reuse =
     (case B64Decode m b64 reuse of
        (m1, Inl err) \<Rightarrow> Inl err
      | (m1, Inr out) \<Rightarrow> Inr (rd m1 out))"

text \<open>\<^verbatim>\<open>RawURLEncoding.DecodeString\<close>: decoding of a string into a fresh buffer.\<close>

definition DecodeString :: "string \<Rightarrow> error + bytes" where
  "DecodeString s = B64Decode_bytes s \<lparr>ptr = 0, len = length s\<rparr> False"

section \<open>Claims, keys and verifiers\<close>

text \<open>
  \<^verbatim>\<open>AccessClaims\<close> (\<^verbatim>\<open>gwt/claims.go\<close>) embeds \<^verbatim>\<open>jwt.RegisteredClaims\<close> of
  \<^verbatim>\<open>github.com/golang-jwt/jwt/v4\<close>. Its three dates are pointers to a
  \<^verbatim>\<open>NumericDate\<close>: \<open>None\<close> is the nil pointer (the field is absent from the JSON
  object), \<open>Some t\<close> an instant, counted from the Unix epoch.
\<close>

record RegisteredClaims =
  Issuer :: string
  Subject :: string
  Audience :: "string list"
  ExpiresAt :: "int option"
  NotBefore :: "int option"
  IssuedAt :: "int option"
  ID :: string

record AccessClaims = RegisteredClaims +
  Username :: string
  Groups :: "string list"
  Orgs :: "string list"

datatype hash = SHA256 | SHA384 | SHA512

text \<open>What \<^verbatim>\<open>x509.ParsePKIXPublicKey\<close> returns, by the dynamic type of the key.\<close>

datatype PublicKey = ECDSAPublicKey bytes | Ed25519PublicKey bytes | OtherPublicKey bytes

text \<open>
  The structs \<^verbatim>\<open>HS256{BytesKey{key, Base{reuse}}}\<close> and the like. The three HMAC
  structs implement \<^verbatim>\<open>Tokenizer\<close> (they can sign); all seven implement \<^verbatim>\<open>Verifier\<close>.
\<close>

datatype Tokenizer = HS256 bytes bool | HS384 bytes bool | HS512 bytes bool

datatype Verifier =
    Tok Tokenizer
  | EdDSA bytes bool
  | ES256 bytes bool
  | ES384 bytes bool
  | ES512 bytes bool

fun Reuse_tok :: "Tokenizer \<Rightarrow> bool" where
  "Reuse_tok (HS256 k r) = r"
| "Reuse_tok (HS384 k r) = r"
| "Reuse_tok (HS512 k r) = r"

fun Reuse :: "Verifier \<Rightarrow> bool" where
  "Reuse (Tok t) = Reuse_tok t"
| "Reuse (EdDSA k r) = r"
| "Reuse (ES256 k r) = r"
| "Reuse (ES384 k r) = r"
| "Reuse (ES512 k r) = r"

text \<open>
  The functions of other modules that the package calls and that are taken as given:
  the Unicode path of \<^verbatim>\<open>strings.ToUpper\<close>, \<^verbatim>\<open>x509.ParsePKIXPublicKey\<close>, the HMAC of a
  key and a message (\<^verbatim>\<open>hmac.New(h, key)\<close>, \<^verbatim>\<open>Write\<close>, \<^verbatim>\<open>Sum(nil)\<close>), a plain digest,
  \<^verbatim>\<open>ecdsa.Verify\<close>, \<^verbatim>\<open>ed25519.Verify\<close>, \<^verbatim>\<open>json.Unmarshal\<close> into an \<^verbatim>\<open>AccessClaims\<close>
  (the error as its message), and the clock \<^verbatim>\<open>jwt.TimeFunc()\<close>.
\<close>

record lib =
  unicodeUpper :: "string \<Rightarrow> string"
  ParsePKIXPublicKey :: "bytes \<Rightarrow> error + PublicKey"
  hmacSum :: "hash \<Rightarrow> bytes \<Rightarrow> bytes \<Rightarrow> bytes"
  hashSum :: "hash \<Rightarrow> bytes \<Rightarrow> bytes"
  ecdsaVerify :: "bytes \<Rightarrow> bytes \<Rightarrow> int \<Rightarrow> int \<Rightarrow> bool"
  ed25519Verify :: "bytes \<Rightarrow> bytes \<Rightarrow> bytes \<Rightarrow> bool"
  jsonUnmarshal :: "bytes \<Rightarrow> string + AccessClaims"
  TimeFunc :: int

section \<open>Key texts\<close>

text \<open>\<^verbatim>\<open>hex.DecodeString\<close>: pairs of hexadecimal digits, of either case.\<close>

definition hexval :: "char \<Rightarrow> nat option" where
  "hexval c =
     (let n = (of_char c :: nat) in
      if 48 \<le> n \<and> n \<le> 57 then Some (n - 48)
      else if 97 \<le> n \<and> n \<le> 102 then Some (n - 87)
      else if 65 \<le> n \<and> n \<le> 70 then Some (n - 55)
      else None)"

fun hexDecodeString :: "string \<Rightarrow> bytes option" where
  "hexDecodeString [] = Some []"
| "hexDecodeString [a] = None"
| "hexDecodeString (a # b # rest) =
     (case (hexval a, hexval b) of
        (Some x, Some y) \<Rightarrow>
          (case hexDecodeString rest of
             Some t \<Rightarrow> Some (char_of (x * 16 + y) # t)
           | None \<Rightarrow> None)
      | _ \<Rightarrow> None)"

text \<open>
  Modelled from the spec: \<^verbatim>\<open>gg.DecodeHexOrB64(keyTxt, outLen)\<close>, a function of the
  repository's package \<^verbatim>\<open>gg\<close> whose source file is missing. The
  specification (section 4.1): the text may be hexadecimal or base64; detection uses
  decoded-length matching against the expected byte count: try hexadecimal first, fall
  back to base64, fail if neither yields the exact expected length.
\<close>

definition DecodeHexOrB64 :: "string \<Rightarrow> nat \<Rightarrow> error + bytes" where
  "DecodeHexOrB64 keyTxt outLen =
     (case hexDecodeString keyTxt of
        Some k \<Rightarrow>
          if length k = outLen then Inr k
          else (case DecodeString keyTxt of
                  Inr k' \<Rightarrow> if length k' = outLen then Inr k' else Inl DecodeKeyError
                | Inl e \<Rightarrow> Inl DecodeKeyError)
      | None \<Rightarrow>
          (case DecodeString keyTxt of
             Inr k' \<Rightarrow> if length k' = outLen then Inr k' else Inl DecodeKeyError
           | Inl e \<Rightarrow> Inl DecodeKeyError))"

section \<open>Constructors\<close>

definition NewHS256 :: "string \<Rightarrow> bool \<Rightarrow> error + Tokenizer" where
  "NewHS256 keyTxt reuse =
     (case DecodeHexOrB64 keyTxt 32 of
        Inl err \<Rightarrow> Inl err
      | Inr key \<Rightarrow> Inr (HS256 key reuse))"

definition NewHS384 :: "string \<Rightarrow> bool \<Rightarrow> error + Tokenizer" where
  "NewHS384 keyTxt reuse =
     (case DecodeHexOrB64 keyTxt 48 of
        Inl err \<Rightarrow> Inl err
      | Inr key \<Rightarrow> Inr (HS384 key reuse))"

definition NewHS512 :: "string \<Rightarrow> bool \<Rightarrow> error + Tokenizer" where
  "NewHS512 keyTxt reuse =
     (case DecodeHexOrB64 keyTxt 64 of
        Inl err \<Rightarrow> Inl err
      | Inr key \<Rightarrow> Inr (HS512 key reuse))"

definition NewEdDSA :: "lib \<Rightarrow> string \<Rightarrow> bool \<Rightarrow> error + Verifier" where
  "NewEdDSA L keyTxt reuse =
     (case DecodeHexOrB64 keyTxt 44 of
        Inl err \<Rightarrow> Inl err
      | Inr der \<Rightarrow>
          (case ParsePKIXPublicKey L der of
             Inl err \<Rightarrow> Inl err
           | Inr (Ed25519PublicKey edPubKey) \<Rightarrow> Inr (EdDSA edPubKey reuse)
           | Inr _ \<Rightarrow> Inl ErrECDSAPubKey))"

definition NewES256 :: "lib \<Rightarrow> string \<Rightarrow> bool \<Rightarrow> error + Verifier" where
  "NewES256 L keyTxt reuse =
     (case DecodeHexOrB64 keyTxt 91 of
        Inl err \<Rightarrow> Inl err
      | Inr key \<Rightarrow>
          (case ParsePKIXPublicKey L key of
             Inl err \<Rightarrow> Inl err
           | Inr (ECDSAPublicKey ecPubKey) \<Rightarrow> Inr (ES256 ecPubKey reuse)
           | Inr _ \<Rightarrow> Inl ErrECDSAPubKey))"

definition NewES384 :: "lib \<Rightarrow> string \<Rightarrow> bool \<Rightarrow> error + Verifier" where
  "NewES384 L keyTxt reuse =
     (case DecodeHexOrB64 keyTxt 120 of
        Inl err \<Rightarrow> Inl err
      | Inr key \<Rightarrow>
          (case ParsePKIXPublicKey L key of
             Inl err \<Rightarrow> Inl err
           | Inr (ECDSAPublicKey ecPubKey) \<Rightarrow> Inr (ES384 ecPubKey reuse)
           | Inr _ \<Rightarrow> Inl ErrECDSAPubKey))"

definition NewES512 :: "lib \<Rightarrow> string \<Rightarrow> bool \<Rightarrow> error + Verifier" where
  "NewES512 L keyTxt reuse =
     (case DecodeHexOrB64 keyTxt 158 of
        Inl err \<Rightarrow> Inl err
      | Inr key \<Rightarrow>
          (case ParsePKIXPublicKey L key of
             Inl err \<Rightarrow> Inl err
           | Inr (ECDSAPublicKey ecPubKey) \<Rightarrow> Inr (ES512 ecPubKey reuse)
           | Inr _ \<Rightarrow> Inl ErrECDSAPubKey))"

definition NewHMAC :: "string \<Rightarrow> bool \<Rightarrow> error + Tokenizer" where
  "NewHMAC keyTxt reuse =
     (if ContainsRune keyTxt (CHR '':'') then Inl ErrColumnInKey
      else case NewHS256 keyTxt reuse of
        Inr tokenizer \<Rightarrow> Inr tokenizer
      | Inl _ \<Rightarrow>
          (case NewHS384 keyTxt reuse of
             Inr tokenizer \<Rightarrow> Inr tokenizer
           | Inl _ \<Rightarrow>
               (case NewHS512 keyTxt reuse of
                  Inr tokenizer \<Rightarrow> Inr tokenizer
                | Inl _ \<Rightarrow> Inl ErrHMACKey)))"

text \<open>
  \<^verbatim>\<open>NewVerifier\<close> either panics (\<^verbatim>\<open>log.Panic\<close> in the branch \<^verbatim>\<open>case 0\<close>) or returns
  a verifier or an error. A tokenizer returned as a \<^verbatim>\<open>Verifier\<close> is wrapped by \<open>Tok\<close>.
\<close>

datatype 'a outcome = Panic | Return 'a

definition asVerifier :: "error + Tokenizer \<Rightarrow> error + Verifier" where
  "asVerifier r = (case r of Inl err \<Rightarrow> Inl err | Inr t \<Rightarrow> Inr (Tok t))"

definition NewVerifier :: "lib \<Rightarrow> string \<Rightarrow> bool \<Rightarrow> (error + Verifier) outcome" where
  "NewVerifier L algoKey reuse =
     (let slice = SplitN algoKey (CHR '':'') 2 in
      if length slice = 0 then Panic
      else if length slice = 1 then Return (asVerifier (NewHMAC algoKey reuse))
      else
        (let algo = ToUpper (unicodeUpper L) (slice ! 0);
             keyTxt = slice ! 1
         in if algo = [] \<or> algo = ''HMAC'' then Return (asVerifier (NewHMAC keyTxt reuse))
            else if algo = ''HS256'' then Return (asVerifier (NewHS256 keyTxt reuse))
            else if algo = ''HS384'' then Return (asVerifier (NewHS384 keyTxt reuse))
            else if algo = ''HS512'' then Return (asVerifier (NewHS512 keyTxt reuse))
            else if algo = ''RS256'' \<or> algo = ''RS384'' \<or> algo = ''RS512''
              then Return (Inl (ParamErrorNotSupported algo))
            else if algo = ''PS256'' \<or> algo = ''PS384'' \<or> algo = ''PS512''
              then Return (Inl (ParamErrorNotSupported algo))
            else if algo = ''ES256'' then Return (NewES256 L keyTxt reuse)
            else if algo = ''ES384'' then Return (NewES384 L keyTxt reuse)
            else if algo = ''ES512'' then Return (NewES512 L keyTxt reuse)
            else if algo = ''EDDSA'' then Return (NewEdDSA L keyTxt reuse)
            else Return (Inl (ParamErrorUnexpectedScheme (slice ! 0) algoKey))))"

section \<open>Signing and verifying\<close>

text \<open>
  \<^verbatim>\<open>sign(digest, headerPayload)\<close>: the digest object is the function from what is
  written to it to its sum. The signature is encoded into a fresh buffer of
  \<^verbatim>\<open>EncodedLen(len(sigBin))\<close> bytes.
\<close>

definition sign :: "(bytes \<Rightarrow> bytes) \<Rightarrow> bytes \<Rightarrow> bytes" where
  "sign digest headerPayload =
     (let sigBin = digest headerPayload;
          b64Len = EncodedLen (length sigBin);
          sigB64 = replicate b64Len (CHR 0x00)
      in Encode sigB64 sigBin)"

fun Sign :: "lib \<Rightarrow> Tokenizer \<Rightarrow> bytes \<Rightarrow> bytes" where
  "Sign L (HS256 key r) hp = sign (hmacSum L SHA256 key) hp"
| "Sign L (HS384 key r) hp = sign (hmacSum L SHA384 key) hp"
| "Sign L (HS512 key r) hp = sign (hmacSum L SHA512 key) hp"

text \<open>\<^verbatim>\<open>verify(v Tokenizer, headerPayload, jwtSignature)\<close>, with \<^verbatim>\<open>bytes.Equal\<close>.\<close>

definition verify :: "lib \<Rightarrow> Tokenizer \<Rightarrow> bytes \<Rightarrow> bytes \<Rightarrow> bool" where
  "verify L v headerPayload jwtSignature =
     (let ourSignature = Sign L v headerPayload in ourSignature = jwtSignature)"

text \<open>
  \<^verbatim>\<open>(*ECDSA).verify\<close> and \<^verbatim>\<open>(*EdDSA).verify\<close> decode the signature with
  \<^verbatim>\<open>B64Decode(sig, v.Reuse())\<close>, so they may write into the token's buffer: they take
  the store and slices of it, and return the store.
\<close>

definition ECDSA_verify ::
  "lib \<Rightarrow> mem \<Rightarrow> bytes \<Rightarrow> bool \<Rightarrow> hash \<Rightarrow> slice \<Rightarrow> slice \<Rightarrow> mem \<times> bool" where
  "ECDSA_verify L m key reuse h headerPayload sig =
     (case B64Decode m sig reuse of
        (m1, Inl err) \<Rightarrow> (m1, False)
      | (m1, Inr sig') \<Rightarrow>
          (let sg = rd m1 sig';
               sum = hashSum L h (rd m1 headerPayload);
               r = SetBytes (take (length sg div 2) sg);
               s = SetBytes (drop (length sg div 2) sg)
           in (m1, ecdsaVerify L key sum r s)))"

definition EdDSA_verify ::
  "lib \<Rightarrow> mem \<Rightarrow> bytes \<Rightarrow> bool \<Rightarrow> slice \<Rightarrow> slice \<Rightarrow> mem \<times> bool" where
  "EdDSA_verify L m key reuse headerPayload sig =
     (case B64Decode m sig reuse of
        (m1, Inl err) \<Rightarrow> (m1, False)
      | (m1, Inr sig') \<Rightarrow> (m1, ed25519Verify L key (rd m1 headerPayload) (rd m1 sig')))"

fun Verify :: "lib \<Rightarrow> mem \<Rightarrow> Verifier \<Rightarrow> slice \<Rightarrow> slice \<Rightarrow> mem \<times> bool" where
  "Verify L m (Tok t) hp sig = (m, verify L t (rd m hp) (rd m sig))"
| "Verify L m (ES256 key r) hp sig = ECDSA_verify L m key r SHA256 hp sig"
| "Verify L m (ES384 key r) hp sig = ECDSA_verify L m key r SHA384 hp sig"
| "Verify L m (ES512 key r) hp sig = ECDSA_verify L m key r SHA512 hp sig"
| "Verify L m (EdDSA key r) hp sig = EdDSA_verify L m key r hp sig"

section \<open>Extracting the claims of a token\<close>

text \<open>\<^verbatim>\<open>SplitThreeParts\<close> returns \<^verbatim>\<open>(p1, p2, error)\<close>; \<open>None\<close> is the nil error.\<close>

definition SplitThreeParts :: "bytes \<Rightarrow> int \<times> int \<times> error option" where
  "SplitThreeParts jwt =
     (let p1 = IndexByte jwt (CHR ''.'');
          p2 = LastIndexByte jwt (CHR ''.'')
      in if p1 < 0 \<or> p1 \<ge> p2 then (0, 0, Some ErrThreeParts)
         else (p1, p2, None))"

text \<open>
  \<^verbatim>\<open>claims.Valid()\<close> is the method that \<^verbatim>\<open>AccessClaims\<close> gets from the embedded
  \<^verbatim>\<open>jwt.RegisteredClaims\<close>; \<^verbatim>\<open>go.mod\<close> requires
  \<^verbatim>\<open>github.com/golang-jwt/jwt/v4 v4.5.2\<close>, a third-party module. Its documentation:
  "Valid validates time based claims exp, iat, nbf. There is no accounting for clock skew.
  As well, if any of the above claims are not in the token, it will still be considered a
  valid claim." It calls \<^verbatim>\<open>VerifyExpiresAt(now, false)\<close>, \<^verbatim>\<open>VerifyIssuedAt(now, false)\<close>
  and \<^verbatim>\<open>VerifyNotBefore(now, false)\<close>, which for a nil date return \<^verbatim>\<open>!required\<close>, and
  otherwise \<^verbatim>\<open>now.Before(exp)\<close> for the expiry and, for \<^verbatim>\<open>iat\<close> and \<^verbatim>\<open>nbf\<close>, whether
  now is after or equal to the date. Each failed check sets its flag in the
  \<^verbatim>\<open>ValidationError\<close>, and the result is nil when no flag is set. Instants are integers
  on one time scale.
\<close>

definition verifyExp :: "int option \<Rightarrow> int \<Rightarrow> bool \<Rightarrow> bool" where
  "verifyExp exp now required = (case exp of None \<Rightarrow> \<not> required | Some e \<Rightarrow> now < e)"

definition verifyIat :: "int option \<Rightarrow> int \<Rightarrow> bool \<Rightarrow> bool" where
  "verifyIat iat now required = (case iat of None \<Rightarrow> \<not> required | Some t \<Rightarrow> t \<le> now)"

definition verifyNbf :: "int option \<Rightarrow> int \<Rightarrow> bool \<Rightarrow> bool" where
  "verifyNbf nbf now required = (case nbf of None \<Rightarrow> \<not> required | Some t \<Rightarrow> t \<le> now)"

definition Valid :: "int \<Rightarrow> AccessClaims \<Rightarrow> error option" where
  "Valid now c =
     (let flags =
            (if \<not> verifyExp (ExpiresAt c) now False then [ValidationErrorExpired] else []) @
            (if \<not> verifyIat (IssuedAt c) now False then [ValidationErrorIssuedAt] else []) @
            (if \<not> verifyNbf (NotBefore c) now False then [ValidationErrorNotValidYet] else [])
      in if flags = [] then None else Some (ValidationError flags))"

text \<open>
  \<^verbatim>\<open>AccessClaimsFromBase64\<close> returns a pointer to the claims and an error; after a
  successful JSON decoding it returns the claims together with whatever
  \<^verbatim>\<open>claims.Valid()\<close> returned.
\<close>

definition AccessClaimsFromBase64 ::
  "lib \<Rightarrow> mem \<Rightarrow> slice \<Rightarrow> bool \<Rightarrow> mem \<times> AccessClaims option \<times> error option" where
  "AccessClaimsFromBase64 L m payload reuse =
     (case B64Decode m payload reuse of
        (m1, Inl err) \<Rightarrow> (m1, None, Some ErrNoBase64JWT)
      | (m1, Inr payload') \<Rightarrow>
          (case jsonUnmarshal L (rd m1 payload') of
             Inl err \<Rightarrow> (m1, None, Some (ClaimError err (rd m1 payload')))
           | Inr claims \<Rightarrow> (m1, Some claims, Valid (TimeFunc L) claims)))"

text \<open>
  \<^verbatim>\<open>claims(v, accessToken)\<close>. Besides the store and the result, the model returns the
  calls that \<^verbatim>\<open>claims\<close> made after the split, in order, with the bytes they were given.
\<close>

datatype call = CallVerify bytes bytes | CallAccessClaimsFromBase64 bytes bool

definition claims ::
  "lib \<Rightarrow> mem \<Rightarrow> Verifier \<Rightarrow> slice
     \<Rightarrow> mem \<times> (AccessClaims option \<times> error option) \<times> call list" where
  "claims L m v accessToken =
     (case SplitThreeParts (rd m accessToken) of
        (p1, p2, Some err) \<Rightarrow> (m, (None, Some err), [])
      | (p1, p2, None) \<Rightarrow>
          (let headerPayload = sub accessToken 0 (nat p2);
               signature = sub accessToken (nat p2 + 1) (len accessToken);
               c1 = CallVerify (rd m headerPayload) (rd m signature)
           in case Verify L m v headerPayload signature of
                (m1, False) \<Rightarrow> (m1, (None, Some ErrJWTSignature), [c1])
              | (m1, True) \<Rightarrow>
                  (let payload = sub accessToken (nat p1 + 1) (nat p2);
                       c2 = CallAccessClaimsFromBase64 (rd m1 payload) (Reuse v)
                   in case AccessClaimsFromBase64 L m1 payload (Reuse v) of
                        (m2, ac, Some err) \<Rightarrow> (m2, (None, Some err), [c1, c2])
                      | (m2, ac, None) \<Rightarrow> (m2, (ac, None), [c1, c2]))))"

section \<open>What a key text decodes to\<close>

text \<open>
  The claims about key lengths speak of the bytes a key text decodes to. \<open>decodesTo\<close>
  says it in the words of the specification: the hexadecimal decoding if it has \<open>n\<close>
  bytes, otherwise the base64 decoding if it has \<open>n\<close> bytes. \<open>decodedLengths\<close> are the
  lengths of the decodings that exist.
\<close>

definition decodesTo :: "string \<Rightarrow> nat \<Rightarrow> bytes option" where
  "decodesTo keyTxt n =
     (case hexDecodeString keyTxt of
        Some k \<Rightarrow>
          if length k = n then Some k
          else (case DecodeString keyTxt of
                  Inr k' \<Rightarrow> if length k' = n then Some k' else None
                | Inl e \<Rightarrow> None)
      | None \<Rightarrow>
          (case DecodeString keyTxt of
             Inr k' \<Rightarrow> if length k' = n then Some k' else None
           | Inl e \<Rightarrow> None))"

definition decodedLengths :: "string \<Rightarrow> nat list" where
  "decodedLengths keyTxt =
     (case hexDecodeString keyTxt of Some k \<Rightarrow> [length k] | None \<Rightarrow> []) @
     (case DecodeString keyTxt of Inr k \<Rightarrow> [length k] | Inl e \<Rightarrow> [])"

section \<open>Two runs of the decoder\<close>

text \<open>
  The relation between the store \<open>ma\<close> of a decoding in place (source and destination
  at offset \<open>s\<close>) and the store \<open>mf\<close> of a decoding of the same \<open>n\<close> characters into
  a destination at offset \<open>df\<close>, after \<open>i\<close> characters were read and \<open>j\<close> bytes
  written: the characters not read yet are the same in both, and so are the bytes written.
\<close>

definition agree :: "nat \<Rightarrow> nat \<Rightarrow> nat \<Rightarrow> nat \<Rightarrow> nat \<Rightarrow> mem \<Rightarrow> mem \<Rightarrow> bool" where
  "agree s n df i j ma mf =
     ((\<forall>p. s + i \<le> p \<and> p < s + n \<longrightarrow> ma ! p = mf ! p) \<and>
      (\<forall>u<j. ma ! (s + u) = mf ! (df + u)))"

section \<open>An example environment\<close>

text \<open>
  A concrete choice of the functions taken as given, used to evaluate the definitions on
  concrete inputs. It is not a model of the cryptographic functions.
\<close>

definition zeroClaims :: AccessClaims
  \<comment> \<open>the zero value of the struct: \<^verbatim>\<open>var claims AccessClaims\<close>\<close>
  where
  "zeroClaims =
     \<lparr>Issuer = [], Subject = [], Audience = [], ExpiresAt = None, NotBefore = None,
      IssuedAt = None, ID = [], Username = [], Groups = [], Orgs = []\<rparr>"

definition exampleLib :: lib
  \<comment> \<open>of JSON, only the empty object is decoded: it leaves the zero value\<close>
  where
  "exampleLib =
     \<lparr>unicodeUpper = (\<lambda>s. s),
      ParsePKIXPublicKey = (\<lambda>der. Inr (Ed25519PublicKey der)),
      hmacSum = (\<lambda>h key msg. key),
      hashSum = (\<lambda>h msg. msg),
      ecdsaVerify = (\<lambda>key sum r s. r = s),
      ed25519Verify = (\<lambda>key msg sig. msg = sig),
      jsonUnmarshal = (\<lambda>bs. if bs = ''{}'' then Inr zeroClaims else Inl ''not modelled''),
      TimeFunc = 1700000000\<rparr>"

section \<open>Splitting a token\<close>

lemma IndexByte_from_notin: "c \<notin> set s \<Longrightarrow> IndexByte_from s c i = - 1"
  by (induction s arbitrary: i) auto

lemma IndexByte_from_first:
  "c \<notin> set as \<Longrightarrow> IndexByte_from (as @ c # bs) c i = int (i + length as)"
  by (induction as arbitrary: i) auto

lemma LastIndexByte_upto_notin:
  "n \<le> length s \<Longrightarrow> c \<notin> set s \<Longrightarrow> LastIndexByte_upto s c n = - 1"
  by (induction n) auto

lemma LastIndexByte_upto_last:
  "c \<notin> set bs \<Longrightarrow> k \<le> length bs \<Longrightarrow>
   LastIndexByte_upto (as @ c # bs) c (Suc (length as + k)) = int (length as)"
proof (induction k)
  case 0
  then show ?case by simp
next
  case (Suc k)
  then have "(as @ c # bs) ! (Suc (length as + k)) = bs ! k"
    by (simp add: nth_append)
  moreover have "bs ! k \<noteq> c" using Suc.prems by (metis Suc_le_lessD nth_mem)
  ultimately show ?case using Suc by simp
qed

lemma IndexByte_notin: "c \<notin> set s \<Longrightarrow> IndexByte s c = - 1"
  by (simp add: IndexByte_def IndexByte_from_notin)

lemma IndexByte_first: "c \<notin> set as \<Longrightarrow> IndexByte (as @ c # bs) c = int (length as)"
  by (simp add: IndexByte_def IndexByte_from_first)

lemma LastIndexByte_last: "c \<notin> set bs \<Longrightarrow> LastIndexByte (as @ c # bs) c = int (length as)"
  using LastIndexByte_upto_last [of c bs "length bs" as] by (simp add: LastIndexByte_def)

lemma Split_no_dot:
  "CHR ''.'' \<notin> set jwt \<Longrightarrow> SplitThreeParts jwt = (0, 0, Some ErrThreeParts)"
  by (simp add: SplitThreeParts_def IndexByte_notin)

lemma Split_one_dot:
  "CHR ''.'' \<notin> set as \<Longrightarrow> CHR ''.'' \<notin> set bs \<Longrightarrow>
   SplitThreeParts (as @ CHR ''.'' # bs) = (0, 0, Some ErrThreeParts)"
  by (simp add: SplitThreeParts_def IndexByte_first LastIndexByte_last)

lemma Split_two_dots:
  "CHR ''.'' \<notin> set as \<Longrightarrow> CHR ''.'' \<notin> set ds \<Longrightarrow>
   SplitThreeParts (as @ CHR ''.'' # cs @ CHR ''.'' # ds) =
     (int (length as), int (length as + 1 + length cs), None)"
  using IndexByte_first [of "CHR ''.''" as "cs @ CHR ''.'' # ds"]
    LastIndexByte_last [of "CHR ''.''" ds "as @ CHR ''.'' # cs"]
  by (simp add: SplitThreeParts_def Let_def)

lemma few_dots_cases:
  assumes "count_list jwt c < 2"
  shows "c \<notin> set jwt \<or> (\<exists>as bs. jwt = as @ c # bs \<and> c \<notin> set as \<and> c \<notin> set bs)"
proof (cases "c \<in> set jwt")
  case False
  then show ?thesis by simp
next
  case True
  then obtain as bs where s: "jwt = as @ c # bs" "c \<notin> set as"
    by (meson split_list_first)
  have "count_list bs c = 0" using assms s by (simp)
  then have "c \<notin> set bs" by (simp add: count_list_0_iff)
  with s show ?thesis by blast
qed

lemma many_dots_cases:
  assumes "2 \<le> count_list jwt c"
  shows "\<exists>as cs ds. jwt = as @ c # cs @ c # ds \<and> c \<notin> set as \<and> c \<notin> set ds"
proof -
  have "c \<in> set jwt" using assms by (metis count_list_0_iff not_numeral_le_zero)
  then obtain as bs where s: "jwt = as @ c # bs" "c \<notin> set as"
    by (meson split_list_first)
  have "count_list as c = 0" using s by (simp add: count_list_0_iff)
  then have "count_list bs c \<noteq> 0" using assms s by simp
  then have "c \<in> set bs" by (simp add: count_list_0_iff)
  then obtain cs ds where t: "bs = cs @ c # ds" "c \<notin> set ds"
    by (meson split_list_last)
  with s show ?thesis by blast
qed


lemma Split_few_dots:
  assumes "count_list jwt (CHR ''.'') < 2"
  shows "SplitThreeParts jwt = (0, 0, Some ErrThreeParts)"
proof -
  from few_dots_cases [OF assms]
  consider "CHR ''.'' \<notin> set jwt"
    | as bs where "jwt = as @ CHR ''.'' # bs" "CHR ''.'' \<notin> set as" "CHR ''.'' \<notin> set bs"
    by auto
  then show ?thesis
  proof cases
    case 1
    then show ?thesis by (rule Split_no_dot)
  next
    case 2
    then show ?thesis by (simp add: Split_one_dot)
  qed
qed

lemma Split_many_dots:
  assumes "2 \<le> count_list jwt (CHR ''.'')"
  shows "\<exists>p1 p2. SplitThreeParts jwt = (int p1, int p2, None) \<and> p1 < p2 \<and> p2 < length jwt \<and>
         jwt ! p1 = CHR ''.'' \<and> (\<forall>i<p1. jwt ! i \<noteq> CHR ''.'') \<and>
         jwt ! p2 = CHR ''.'' \<and> (\<forall>i. p2 < i \<and> i < length jwt \<longrightarrow> jwt ! i \<noteq> CHR ''.'')"
proof -
  from many_dots_cases [OF assms]
  obtain as cs ds where j: "jwt = as @ CHR ''.'' # cs @ CHR ''.'' # ds"
    and a: "CHR ''.'' \<notin> set as" and d: "CHR ''.'' \<notin> set ds"
    by auto
  define pre where "pre = as @ CHR ''.'' # cs"
  have l: "length pre = length as + 1 + length cs" by (simp add: pre_def)
  have jp: "jwt = pre @ CHR ''.'' # ds" using j by (simp add: pre_def)
  have 1: "SplitThreeParts jwt = (int (length as), int (length pre), None)"
    using Split_two_dots [OF a d] j l by simp
  have 2: "jwt ! length as = CHR ''.''" using j by simp
  have 3: "\<forall>i<length as. jwt ! i \<noteq> CHR ''.''"
  proof (intro allI impI)
    fix i assume "i < length as"
    then have "jwt ! i = as ! i" "as ! i \<in> set as" using j by (simp_all add: nth_append)
    then show "jwt ! i \<noteq> CHR ''.''" using a by auto
  qed
  have 4: "jwt ! length pre = CHR ''.''" unfolding jp by simp
  have 5: "\<forall>i. length pre < i \<and> i < length jwt \<longrightarrow> jwt ! i \<noteq> CHR ''.''"
  proof (intro allI impI)
    fix i assume i: "length pre < i \<and> i < length jwt"
    have "jwt ! i = ds ! (i - Suc (length pre))"
      unfolding jp using i by (simp add: nth_append nth_Cons')
    moreover have "length jwt = Suc (length pre) + length ds" unfolding jp by simp
    then have "i - Suc (length pre) < length ds" using i by linarith
    then have "ds ! (i - Suc (length pre)) \<in> set ds" by simp
    ultimately show "jwt ! i \<noteq> CHR ''.''" using d by auto
  qed
  have 6: "length as < length pre" using l by simp
  have 7: "length pre < length jwt" unfolding jp by simp
  from 1 2 3 4 5 6 7 show ?thesis by (intro exI [of _ "length as"] exI [of _ "length pre"] conjI)
qed

text \<open>
  C3. \<^verbatim>\<open>SplitThreeParts\<close> returns \<^verbatim>\<open>ErrThreeParts\<close> exactly when the token has fewer
  than two \<^verbatim>\<open>'.'\<close> bytes. With two or more it succeeds and returns the index of the first
  dot and the index of the last dot. In \<^verbatim>\<open>claims\<close>, a token with fewer than two dots gives
  \<^verbatim>\<open>ErrThreeParts\<close> with the store unchanged and no call made: neither \<^verbatim>\<open>Verify\<close> nor
  anything after it.
\<close>

theorem SplitThreeParts_dots:
  "(count_list jwt (CHR ''.'') < 2 \<longrightarrow> SplitThreeParts jwt = (0, 0, Some ErrThreeParts)) \<and>
   (2 \<le> count_list jwt (CHR ''.'') \<longrightarrow>
      (\<exists>p1 p2. SplitThreeParts jwt = (int p1, int p2, None) \<and> p1 < p2 \<and> p2 < length jwt \<and>
         jwt ! p1 = CHR ''.'' \<and> (\<forall>i<p1. jwt ! i \<noteq> CHR ''.'') \<and>
         jwt ! p2 = CHR ''.'' \<and> (\<forall>i. p2 < i \<and> i < length jwt \<longrightarrow> jwt ! i \<noteq> CHR ''.''))) \<and>
   (count_list (rd m tok) (CHR ''.'') < 2 \<longrightarrow>
      claims L m v tok = (m, (None, Some ErrThreeParts), []))"
proof (intro conjI impI)
  assume "count_list jwt (CHR ''.'') < 2"
  then show "SplitThreeParts jwt = (0, 0, Some ErrThreeParts)" by (rule Split_few_dots)
next
  assume "2 \<le> count_list jwt (CHR ''.'')"
  then show "\<exists>p1 p2. SplitThreeParts jwt = (int p1, int p2, None) \<and> p1 < p2 \<and> p2 < length jwt \<and>
         jwt ! p1 = CHR ''.'' \<and> (\<forall>i<p1. jwt ! i \<noteq> CHR ''.'') \<and>
         jwt ! p2 = CHR ''.'' \<and> (\<forall>i. p2 < i \<and> i < length jwt \<longrightarrow> jwt ! i \<noteq> CHR ''.'')"
    by (rule Split_many_dots)
next
  assume "count_list (rd m tok) (CHR ''.'') < 2"
  then have "SplitThreeParts (rd m tok) = (0, 0, Some ErrThreeParts)" by (rule Split_few_dots)
  then show "claims L m v tok = (m, (None, Some ErrThreeParts), [])"
    by (simp add: claims_def)
qed


theorem SplitThreeParts_dots_witness:
  "SplitThreeParts ''a.b'' = (0, 0, Some ErrThreeParts) \<and>
   (\<exists>p1 p2. SplitThreeParts ''a.bc.d'' = (int p1, int p2, None) \<and> p1 < p2 \<and>
       p2 < length ''a.bc.d'' \<and>
       ''a.bc.d'' ! p1 = CHR ''.'' \<and> (\<forall>i<p1. ''a.bc.d'' ! i \<noteq> CHR ''.'') \<and>
       ''a.bc.d'' ! p2 = CHR ''.'' \<and>
       (\<forall>i. p2 < i \<and> i < length ''a.bc.d'' \<longrightarrow> ''a.bc.d'' ! i \<noteq> CHR ''.'')) \<and>
   claims exampleLib ''xa.b'' (Tok (HS256 ''k'' True)) \<lparr>ptr = 1, len = 3\<rparr> =
     (''xa.b'', (None, Some ErrThreeParts), [])"
  using SplitThreeParts_dots [of "''a.b''" "''xa.b''" "\<lparr>ptr = 1, len = 3\<rparr>"
      exampleLib "Tok (HS256 ''k'' True)"]
    SplitThreeParts_dots [of "''a.bc.d''" "''xa.b''" "\<lparr>ptr = 1, len = 3\<rparr>"
      exampleLib "Tok (HS256 ''k'' True)"]
  by (simp add: rd_def)


section \<open>Signing and verifying with an HMAC key\<close>

text \<open>
  C1. For each of the three HMAC tokenizers, whatever its key, and every header and
  payload \<open>hp\<close>: verifying \<open>hp\<close> against the signature that \<^verbatim>\<open>Sign\<close> computes for
  \<open>hp\<close> gives true. The same holds for the method \<^verbatim>\<open>Verify\<close> of the interface, given
  slices of the store that hold \<open>hp\<close> and that signature; it leaves the store as it is.
\<close>

theorem verify_Sign:
  "verify L v hp (Sign L v hp) = True \<and>
   (rd m sgS = Sign L v (rd m hpS) \<longrightarrow> Verify L m (Tok v) hpS sgS = (m, True))"
  by (simp add: verify_def)

theorem verify_Sign_witness:
  "rd ''a.e30.aw'' \<lparr>ptr = 6, len = 2\<rparr> =
     Sign exampleLib (HS256 ''k'' True) (rd ''a.e30.aw'' \<lparr>ptr = 0, len = 5\<rparr>) \<and>
   verify exampleLib (HS256 ''k'' True) ''a.e30'' (Sign exampleLib (HS256 ''k'' True) ''a.e30'') \<and>
   Verify exampleLib ''a.e30.aw'' (Tok (HS256 ''k'' True)) \<lparr>ptr = 0, len = 5\<rparr> \<lparr>ptr = 6, len = 2\<rparr> =
     (''a.e30.aw'', True)"
proof -
  have h: "rd ''a.e30.aw'' \<lparr>ptr = 6, len = 2\<rparr> =
     Sign exampleLib (HS256 ''k'' True) (rd ''a.e30.aw'' \<lparr>ptr = 0, len = 5\<rparr>)"
    by code_simp
  show ?thesis
    using h verify_Sign [of exampleLib "HS256 ''k'' True" "''a.e30''" "''a.e30.aw''"
        "\<lparr>ptr = 6, len = 2\<rparr>" "\<lparr>ptr = 0, len = 5\<rparr>"]
    by simp
qed

text \<open>
  What \<^verbatim>\<open>verify\<close> computes: it accepts a signature exactly when it is, byte for byte,
  the signature that \<^verbatim>\<open>Sign\<close> computes for the same header and payload. The comparison
  in the source is \<^verbatim>\<open>bytes.Equal\<close>; how long it takes is not part of this model.
\<close>

lemma verify_recomputes: "verify L v hp sg = (sg = Sign L v hp)"
  by (auto simp add: verify_def)

section \<open>Descriptors and constructors\<close>

lemma SplitN_colon:
  "CHR '':'' \<notin> set algo \<Longrightarrow> SplitN (algo @ CHR '':'' # keyTxt) (CHR '':'') 2 = [algo, keyTxt]"
  by (simp add: SplitN_def numeral_2_eq_2 IndexByte_first)

lemma SplitN_no_colon:
  "CHR '':'' \<notin> set s \<Longrightarrow> SplitN s (CHR '':'') 2 = [s]"
  by (simp add: SplitN_def numeral_2_eq_2 IndexByte_notin)

lemma genSplit_nonempty: "genSplit s sep k \<noteq> []"
  by (cases k) (simp_all add: Let_def)

lemma SplitN_nonempty: "0 < n \<Longrightarrow> SplitN s sep n \<noteq> []"
  by (simp add: SplitN_def genSplit_nonempty)

lemma DecodeHexOrB64_Inr_length: "DecodeHexOrB64 keyTxt n = Inr k \<Longrightarrow> length k = n"
  by (auto simp add: DecodeHexOrB64_def split: option.splits sum.splits if_splits)

lemma DecodeHexOrB64_Inl: "DecodeHexOrB64 keyTxt n = Inl e \<Longrightarrow> e = DecodeKeyError"
  by (auto simp add: DecodeHexOrB64_def split: option.splits sum.splits if_splits)

lemma DecodeHexOrB64_rejects:
  "n \<notin> set (decodedLengths keyTxt) \<Longrightarrow> DecodeHexOrB64 keyTxt n = Inl DecodeKeyError"
  by (auto simp add: DecodeHexOrB64_def decodedLengths_def split: option.splits sum.splits)

lemma DecodeHexOrB64_accepts:
  "n \<in> set (decodedLengths keyTxt) \<Longrightarrow> \<exists>k. DecodeHexOrB64 keyTxt n = Inr k \<and> length k = n"
  by (cases "hexDecodeString keyTxt"; cases "DecodeString keyTxt")
    (auto simp add: DecodeHexOrB64_def decodedLengths_def)

lemma DecodeString_empty: "DecodeString [] = Inr []"
  by (simp add: DecodeString_def B64Decode_bytes_def B64Decode_def make_bytes_def DecodedLen_def
      Decode_def decode_tail_def sub_def rd_def)

lemma DecodeHexOrB64_empty: "0 < n \<Longrightarrow> DecodeHexOrB64 [] n = Inl DecodeKeyError"
  by (simp add: DecodeHexOrB64_def DecodeString_empty)

lemma NewHMAC_empty: "NewHMAC [] reuse = Inl ErrHMACKey"
  by (simp add: NewHMAC_def ContainsRune_def IndexByte_def NewHS256_def NewHS384_def
      NewHS512_def DecodeHexOrB64_empty)

text \<open>
  C4. A constructor returns an error for every key text that has no decoding
  (hexadecimal or base64) of exactly the length its algorithm requires: 32, 48 and 64
  bytes for HS256, HS384 and HS512, 91, 120 and 158 for ES256, ES384 and ES512, 44 for
  EdDSA. The key of a tokenizer that was constructed has exactly the required length.
\<close>

theorem constructors_reject_wrong_length:
  "(32 \<notin> set (decodedLengths keyTxt) \<longrightarrow> NewHS256 keyTxt reuse = Inl DecodeKeyError) \<and>
   (48 \<notin> set (decodedLengths keyTxt) \<longrightarrow> NewHS384 keyTxt reuse = Inl DecodeKeyError) \<and>
   (64 \<notin> set (decodedLengths keyTxt) \<longrightarrow> NewHS512 keyTxt reuse = Inl DecodeKeyError) \<and>
   (91 \<notin> set (decodedLengths keyTxt) \<longrightarrow> NewES256 L keyTxt reuse = Inl DecodeKeyError) \<and>
   (120 \<notin> set (decodedLengths keyTxt) \<longrightarrow> NewES384 L keyTxt reuse = Inl DecodeKeyError) \<and>
   (158 \<notin> set (decodedLengths keyTxt) \<longrightarrow> NewES512 L keyTxt reuse = Inl DecodeKeyError) \<and>
   (44 \<notin> set (decodedLengths keyTxt) \<longrightarrow> NewEdDSA L keyTxt reuse = Inl DecodeKeyError) \<and>
   (\<forall>t. NewHS256 keyTxt reuse = Inr t \<longrightarrow> (\<exists>key. t = HS256 key reuse \<and> length key = 32)) \<and>
   (\<forall>t. NewHS384 keyTxt reuse = Inr t \<longrightarrow> (\<exists>key. t = HS384 key reuse \<and> length key = 48)) \<and>
   (\<forall>t. NewHS512 keyTxt reuse = Inr t \<longrightarrow> (\<exists>key. t = HS512 key reuse \<and> length key = 64))"
  by (auto simp add: NewHS256_def NewHS384_def NewHS512_def NewES256_def NewES384_def
      NewES512_def NewEdDSA_def DecodeHexOrB64_rejects
      dest: DecodeHexOrB64_Inr_length split: sum.splits)

theorem constructors_reject_wrong_length_witness:
  "NewHS256 ''abc'' True = Inl DecodeKeyError \<and>
   NewES256 exampleLib ''abc'' True = Inl DecodeKeyError \<and>
   NewEdDSA exampleLib ''abc'' True = Inl DecodeKeyError \<and>
   (\<exists>key. NewHS256 ''0a02123112dfb13d58a1bc0c8ce55b154878085035ae4d2e13383a79a3e3de1b'' True =
            Inr (HS256 key True) \<and> length key = 32)"
proof -
  have l: "decodedLengths ''abc'' = [2]"
    by code_simp
  obtain t where t:
    "NewHS256 ''0a02123112dfb13d58a1bc0c8ce55b154878085035ae4d2e13383a79a3e3de1b'' True = Inr t"
    by (simp add: NewHS256_def DecodeHexOrB64_def hexval_def)
  show ?thesis
    using l t
      constructors_reject_wrong_length [of "''abc''" True exampleLib]
      constructors_reject_wrong_length
        [of "''0a02123112dfb13d58a1bc0c8ce55b154878085035ae4d2e13383a79a3e3de1b''" True
          exampleLib]
    by auto
qed

text \<open>
  C5. A descriptor without \<^verbatim>\<open>':'\<close> carries no algorithm: \<^verbatim>\<open>NewVerifier\<close> hands it to
  \<^verbatim>\<open>NewHMAC\<close> as the key text. \<^verbatim>\<open>NewHMAC\<close> then gives an HS256 tokenizer if the text
  decodes (hexadecimal first, then base64) to 32 bytes, otherwise an HS384 tokenizer if it
  decodes to 48 bytes, otherwise an HS512 tokenizer if it decodes to 64 bytes, and
  otherwise the error \<^verbatim>\<open>ErrHMACKey\<close>.
\<close>

theorem NewHMAC_autodetect:
  assumes "CHR '':'' \<notin> set keyTxt"
  shows "NewVerifier L keyTxt reuse = Return (asVerifier (NewHMAC keyTxt reuse)) \<and>
         NewHMAC keyTxt reuse =
           (case decodesTo keyTxt 32 of
              Some k \<Rightarrow> Inr (HS256 k reuse)
            | None \<Rightarrow>
                (case decodesTo keyTxt 48 of
                   Some k \<Rightarrow> Inr (HS384 k reuse)
                 | None \<Rightarrow>
                     (case decodesTo keyTxt 64 of
                        Some k \<Rightarrow> Inr (HS512 k reuse)
                      | None \<Rightarrow> Inl ErrHMACKey)))"
proof -
  have d: "\<And>n. DecodeHexOrB64 keyTxt n =
             (case decodesTo keyTxt n of Some k \<Rightarrow> Inr k | None \<Rightarrow> Inl DecodeKeyError)"
    by (simp add: DecodeHexOrB64_def decodesTo_def split: option.splits sum.splits)
  have c: "\<not> ContainsRune keyTxt (CHR '':'')"
    using assms by (simp add: ContainsRune_def IndexByte_notin)
  show ?thesis
    using SplitN_no_colon [OF assms] c
    by (simp add: NewVerifier_def NewHMAC_def NewHS256_def NewHS384_def NewHS512_def d
        split: option.splits)
qed

theorem NewHMAC_autodetect_witness:
  "NewVerifier exampleLib ''abc'' True = Return (asVerifier (NewHMAC ''abc'' True)) \<and>
   NewHMAC ''abc'' True = Inl ErrHMACKey \<and>
   (\<exists>k. NewHMAC ''0a02123112dfb13d58a1bc0c8ce55b154878085035ae4d2e13383a79a3e3de1b'' True =
          Inr (HS256 k True))"
proof -
  have n: "decodesTo ''abc'' 32 = None \<and> decodesTo ''abc'' 48 = None \<and> decodesTo ''abc'' 64 = None"
    by code_simp
  have c: "CHR '':'' \<notin> set ''abc''" by simp
  have s: "decodesTo ''0a02123112dfb13d58a1bc0c8ce55b154878085035ae4d2e13383a79a3e3de1b'' 32 \<noteq> None"
    by code_simp
  have c': "CHR '':'' \<notin> set ''0a02123112dfb13d58a1bc0c8ce55b154878085035ae4d2e13383a79a3e3de1b''"
    by simp
  show ?thesis
    using NewHMAC_autodetect [OF c, of exampleLib True] n
      NewHMAC_autodetect [OF c', of exampleLib True] s
    by auto
qed

text \<open>
  C6. A descriptor \<^verbatim>\<open>algo:key\<close> whose algorithm, in upper case, is RS256, RS384,
  RS512, PS256, PS384 or PS512 gives no verifier and the parameter error that names the
  algorithm as not supported, whatever the key text. An algorithm that is none of the
  names \<^verbatim>\<open>NewVerifier\<close> knows gives no verifier and the parameter error for an unexpected
  scheme.
\<close>

theorem NewVerifier_unsupported_unknown:
  assumes "CHR '':'' \<notin> set algo"
  shows "(ToUpper (unicodeUpper L) algo \<in>
            set [''RS256'', ''RS384'', ''RS512'', ''PS256'', ''PS384'', ''PS512''] \<longrightarrow>
          NewVerifier L (algo @ CHR '':'' # keyTxt) reuse =
            Return (Inl (ParamErrorNotSupported (ToUpper (unicodeUpper L) algo)))) \<and>
         (ToUpper (unicodeUpper L) algo \<notin>
            set [[], ''HMAC'', ''HS256'', ''HS384'', ''HS512'', ''RS256'', ''RS384'', ''RS512'',
                 ''PS256'', ''PS384'', ''PS512'', ''ES256'', ''ES384'', ''ES512'', ''EDDSA''] \<longrightarrow>
          NewVerifier L (algo @ CHR '':'' # keyTxt) reuse =
            Return (Inl (ParamErrorUnexpectedScheme algo (algo @ CHR '':'' # keyTxt))))"
  using SplitN_colon [OF assms, of keyTxt]
  by (auto simp add: NewVerifier_def Let_def)

theorem NewVerifier_unsupported_unknown_witness:
  "NewVerifier exampleLib ''rs256:abcd'' True = Return (Inl (ParamErrorNotSupported ''RS256'')) \<and>
   NewVerifier exampleLib ''Rs257:abcd'' True =
     Return (Inl (ParamErrorUnexpectedScheme ''Rs257'' ''Rs257:abcd''))"
  using NewVerifier_unsupported_unknown [of "''rs256''" exampleLib "''abcd''" True]
    NewVerifier_unsupported_unknown [of "''Rs257''" exampleLib "''abcd''" True]
  by (simp add: ToUpper_def isASCII_def upperByte_def char_of_def bit_Suc_0_iff)

text \<open>
  C10. \<^verbatim>\<open>NewVerifier\<close> never reaches its panic: \<^verbatim>\<open>strings.SplitN\<close> with \<open>n = 2\<close>
  returns at least one string. The empty descriptor goes to \<^verbatim>\<open>NewHMAC\<close>, which returns
  \<^verbatim>\<open>ErrHMACKey\<close>.
\<close>

theorem NewVerifier_never_panics:
  "NewVerifier L algoKey reuse \<noteq> Panic \<and>
   length (SplitN algoKey (CHR '':'') 2) \<ge> 1 \<and>
   NewVerifier L [] reuse = Return (Inl ErrHMACKey)"
proof (intro conjI)
  have ne: "SplitN algoKey (CHR '':'') 2 \<noteq> []" by (simp add: SplitN_nonempty)
  then show "NewVerifier L algoKey reuse \<noteq> Panic"
    by (simp add: NewVerifier_def Let_def)
  from ne show "length (SplitN algoKey (CHR '':'') 2) \<ge> 1"
    by (cases "SplitN algoKey (CHR '':'') 2") simp_all
  show "NewVerifier L [] reuse = Return (Inl ErrHMACKey)"
    using SplitN_no_colon [of "[]"]
    by (simp add: NewVerifier_def NewHMAC_empty asVerifier_def)
qed



section \<open>The claims pipeline\<close>

lemma rd_sub_take:
  "b \<le> len s \<Longrightarrow> rd m (sub s 0 b) = take b (rd m s)"
  by (simp add: rd_def sub_def min_def)

lemma rd_sub_drop:
  "rd m (sub s a (len s)) = drop a (rd m s)"
  by (simp add: rd_def sub_def drop_take add.commute)

lemma rd_length: "length (rd m s) \<le> len s"
  by (simp add: rd_def)

text \<open>
  C7. For a token that \<^verbatim>\<open>SplitThreeParts\<close> accepts, \<^verbatim>\<open>claims\<close> calls \<^verbatim>\<open>Verify\<close> with the
  bytes before the last dot as header and payload and the bytes after the last dot as
  signature. When \<^verbatim>\<open>Verify\<close> returns false, \<^verbatim>\<open>claims\<close> returns \<^verbatim>\<open>ErrJWTSignature\<close> and
  has made no other call: the payload is neither base64-decoded nor JSON-decoded.
\<close>

theorem claims_verifies_header_payload:
  assumes "snd (snd (SplitThreeParts (rd m tok))) = None"
  shows "\<exists>hp sg. rd m tok = hp @ CHR ''.'' # sg \<and> CHR ''.'' \<notin> set sg \<and>
           rd m (sub tok 0 (length hp)) = hp \<and>
           rd m (sub tok (length hp + 1) (len tok)) = sg \<and>
           (case Verify L m v (sub tok 0 (length hp)) (sub tok (length hp + 1) (len tok)) of
              (m1, ok) \<Rightarrow>
                (\<not> ok \<longrightarrow>
                   claims L m v tok = (m1, (None, Some ErrJWTSignature), [CallVerify hp sg])) \<and>
                (ok \<longrightarrow> (\<exists>res c. snd (claims L m v tok) = (res, [CallVerify hp sg, c]))))"
proof -
  have "\<not> count_list (rd m tok) (CHR ''.'') < 2"
    using assms Split_few_dots [of "rd m tok"] by auto
  then have "2 \<le> count_list (rd m tok) (CHR ''.'')" by simp
  from many_dots_cases [OF this]
  obtain as cs ds where j: "rd m tok = as @ CHR ''.'' # cs @ CHR ''.'' # ds"
    and a: "CHR ''.'' \<notin> set as" and d: "CHR ''.'' \<notin> set ds"
    by auto
  define hp where "hp = as @ CHR ''.'' # cs"
  have jp: "rd m tok = hp @ CHR ''.'' # ds" using j by (simp add: hp_def)
  have l: "length hp = length as + 1 + length cs" by (simp add: hp_def)
  have split: "SplitThreeParts (rd m tok) = (int (length as), int (length hp), None)"
    using Split_two_dots [OF a d, of cs] j l by simp
  have "length hp \<le> length (rd m tok)" unfolding jp by simp
  then have le: "length hp \<le> len tok" using rd_length [of m tok] by linarith
  have r1: "rd m (sub tok 0 (length hp)) = hp"
    using rd_sub_take [OF le, of m] jp by simp
  have r2: "rd m (sub tok (length hp + 1) (len tok)) = ds"
    using rd_sub_drop [of m tok "length hp + 1"] jp by simp
  have c: "case Verify L m v (sub tok 0 (length hp)) (sub tok (length hp + 1) (len tok)) of
              (m1, ok) \<Rightarrow>
                (\<not> ok \<longrightarrow>
                   claims L m v tok = (m1, (None, Some ErrJWTSignature), [CallVerify hp ds])) \<and>
                (ok \<longrightarrow> (\<exists>res c. snd (claims L m v tok) = (res, [CallVerify hp ds, c])))"
    using r1 r2
    by (auto simp add: claims_def split Let_def split: prod.splits option.splits bool.splits)
  show ?thesis
    by (rule exI [of _ hp], rule exI [of _ ds]) (use jp d r1 r2 c in blast)
qed


theorem claims_verifies_header_payload_witness:
  "snd (snd (SplitThreeParts (rd ''a.e30.ZZ'' \<lparr>ptr = 0, len = 8\<rparr>))) = None \<and>
   (\<exists>hp sg. rd ''a.e30.ZZ'' \<lparr>ptr = 0, len = 8\<rparr> = hp @ CHR ''.'' # sg \<and> CHR ''.'' \<notin> set sg \<and>
      rd ''a.e30.ZZ'' (sub \<lparr>ptr = 0, len = 8\<rparr> 0 (length hp)) = hp \<and>
      rd ''a.e30.ZZ'' (sub \<lparr>ptr = 0, len = 8\<rparr> (length hp + 1) (len \<lparr>ptr = 0, len = 8\<rparr>)) = sg \<and>
      (case Verify exampleLib ''a.e30.ZZ'' (Tok (HS256 ''k'' True))
              (sub \<lparr>ptr = 0, len = 8\<rparr> 0 (length hp))
              (sub \<lparr>ptr = 0, len = 8\<rparr> (length hp + 1) (len \<lparr>ptr = 0, len = 8\<rparr>)) of
         (m1, ok) \<Rightarrow>
           (\<not> ok \<longrightarrow>
              claims exampleLib ''a.e30.ZZ'' (Tok (HS256 ''k'' True)) \<lparr>ptr = 0, len = 8\<rparr> =
                (m1, (None, Some ErrJWTSignature), [CallVerify hp sg])) \<and>
           (ok \<longrightarrow>
              (\<exists>res c. snd (claims exampleLib ''a.e30.ZZ'' (Tok (HS256 ''k'' True))
                               \<lparr>ptr = 0, len = 8\<rparr>) =
                 (res, [CallVerify hp sg, c]))))) \<and>
   claims exampleLib ''a.e30.ZZ'' (Tok (HS256 ''k'' True)) \<lparr>ptr = 0, len = 8\<rparr> =
     (''a.e30.ZZ'', (None, Some ErrJWTSignature), [CallVerify ''a.e30'' ''ZZ''])"
proof -
  have h: "snd (snd (SplitThreeParts (rd ''a.e30.ZZ'' \<lparr>ptr = 0, len = 8\<rparr>))) = None"
    by code_simp
  have e: "claims exampleLib ''a.e30.ZZ'' (Tok (HS256 ''k'' True)) \<lparr>ptr = 0, len = 8\<rparr> =
     (''a.e30.ZZ'', (None, Some ErrJWTSignature), [CallVerify ''a.e30'' ''ZZ''])"
    by code_simp
  show ?thesis
    by (intro conjI h e claims_verifies_header_payload [OF h])
qed

text \<open>
  C2, as the code has it. The validation reports \<^verbatim>\<open>ValidationErrorExpired\<close> exactly when
  an expiry is present and not after now, so an expiry equal to now is expired; it then
  returns an error. It returns nil exactly when every date that is present passes: now
  before the expiry, and not before \<^verbatim>\<open>iat\<close> and \<^verbatim>\<open>nbf\<close>. Claims without an expiry are
  therefore not rejected. \<^verbatim>\<open>AccessClaimsFromBase64\<close> returns the decoded claims together
  with what the validation returned.
\<close>

theorem Valid_expired_iff:
  "((\<exists>flags. Valid now c = Some (ValidationError flags) \<and> ValidationErrorExpired \<in> set flags) =
      (\<exists>e. ExpiresAt c = Some e \<and> e \<le> now)) \<and>
   ((\<exists>e. ExpiresAt c = Some e \<and> e \<le> now) \<longrightarrow> Valid now c \<noteq> None) \<and>
   ((Valid now c = None) =
      ((\<forall>e. ExpiresAt c = Some e \<longrightarrow> now < e) \<and> (\<forall>t. IssuedAt c = Some t \<longrightarrow> t \<le> now) \<and>
       (\<forall>t. NotBefore c = Some t \<longrightarrow> t \<le> now))) \<and>
   (B64Decode m payload reuse = (m1, Inr p) \<and> jsonUnmarshal L (rd m1 p) = Inr c \<longrightarrow>
      AccessClaimsFromBase64 L m payload reuse = (m1, Some c, Valid (TimeFunc L) c))"
  by (auto simp add: Valid_def verifyExp_def verifyIat_def verifyNbf_def
      AccessClaimsFromBase64_def split: option.splits)

theorem Valid_expired_iff_witness:
  "Valid 100 (zeroClaims\<lparr>ExpiresAt := Some 100\<rparr>) \<noteq> None \<and>
   Valid 100 (zeroClaims\<lparr>ExpiresAt := Some 101\<rparr>) = None \<and>
   AccessClaimsFromBase64 exampleLib ''e30'' \<lparr>ptr = 0, len = 3\<rparr> False =
     (''e30{}'', Some zeroClaims, Valid (TimeFunc exampleLib) zeroClaims)"
proof -
  have b: "B64Decode ''e30'' \<lparr>ptr = 0, len = 3\<rparr> False = (''e30{}'', Inr \<lparr>ptr = 3, len = 2\<rparr>)"
    by code_simp
  have j: "jsonUnmarshal exampleLib (rd ''e30{}'' \<lparr>ptr = 3, len = 2\<rparr>) = Inr zeroClaims"
    by code_simp
  show ?thesis
    using Valid_expired_iff [of 100 "zeroClaims\<lparr>ExpiresAt := Some 100\<rparr>" "''e30''"
        "\<lparr>ptr = 0, len = 3\<rparr>" False "''e30{}''" "\<lparr>ptr = 3, len = 2\<rparr>" exampleLib]
      Valid_expired_iff [of 100 "zeroClaims\<lparr>ExpiresAt := Some 101\<rparr>" "''e30''"
        "\<lparr>ptr = 0, len = 3\<rparr>" False "''e30{}''" "\<lparr>ptr = 3, len = 2\<rparr>" exampleLib]
      Valid_expired_iff [of "TimeFunc exampleLib" zeroClaims "''e30''"
        "\<lparr>ptr = 0, len = 3\<rparr>" False "''e30{}''" "\<lparr>ptr = 3, len = 2\<rparr>" exampleLib]
      b j
    by (simp add: zeroClaims_def)
qed

text \<open>
  C2 as stated fails: the claims decoded from the JSON object \<^verbatim>\<open>{}\<close> have
  no expiry, and the validation accepts them; a token with that payload and a good
  signature gets its claims back without error.
\<close>

theorem absent_expiry_accepted:
  "ExpiresAt zeroClaims = None \<and>
   Valid (TimeFunc exampleLib) zeroClaims = None \<and>
   snd (AccessClaimsFromBase64 exampleLib ''e30'' \<lparr>ptr = 0, len = 3\<rparr> False) =
     (Some zeroClaims, None) \<and>
   snd (claims exampleLib ''a.e30.aw'' (Tok (HS256 ''k'' False)) \<lparr>ptr = 0, len = 8\<rparr>) =
     ((Some zeroClaims, None),
      [CallVerify ''a.e30'' ''aw'', CallAccessClaimsFromBase64 ''e30'' False])"
  by code_simp


section \<open>Decoding in place and decoding into a fresh buffer\<close>

lemma decode_quads_length: "length (fst (decode_quads m d s i k)) = length m"
  by (induction k arbitrary: m i) (auto split: option.splits)

lemma decode_tail_length: "length (fst (decode_tail m d s q r)) = length m"
  by (auto simp add: decode_tail_def split: option.splits)

lemma agree_write1:
  assumes "agree s n df i j ma mf" and "s + j < length ma" and "df + j < length mf"
    and "j < i" and "s + n \<le> df"
  shows "agree s n df i (Suc j) (ma[s + j := x]) (mf[df + j := x])"
  unfolding agree_def
proof (intro conjI allI impI)
  fix p assume p: "s + i \<le> p \<and> p < s + n"
  then have "ma ! p = mf ! p" using assms(1) by (simp add: agree_def)
  moreover have "p \<noteq> s + j" "p \<noteq> df + j" using p assms(4,5) by auto
  ultimately show "ma[s + j := x] ! p = mf[df + j := x] ! p" by simp
next
  fix u assume u: "u < Suc j"
  show "ma[s + j := x] ! (s + u) = mf[df + j := x] ! (df + u)"
  proof (cases "u = j")
    case True
    then show ?thesis using assms(2,3) by simp
  next
    case False
    then have "u < j" using u by simp
    then have "ma ! (s + u) = mf ! (df + u)" using assms(1) by (simp add: agree_def)
    then show ?thesis using False by simp
  qed
qed

lemma agree_mono: "agree s n df i j ma mf \<Longrightarrow> i \<le> i' \<Longrightarrow> agree s n df i' j ma mf"
  by (auto simp add: agree_def)


lemma agree_read: "agree s n df i j ma mf \<Longrightarrow> i \<le> t \<Longrightarrow> t < n \<Longrightarrow> ma ! (s + t) = mf ! (s + t)"
  by (simp add: agree_def)

lemma agree_write3:
  assumes a: "agree s n df i j ma mf" and la: "s + j + 2 < length ma"
    and lf: "df + j + 2 < length mf" and ji: "j + 2 < i" and d: "s + n \<le> df"
  shows "agree s n df i (j + 3)
           (ma[s + j := x, s + j + 1 := y, s + j + 2 := z])
           (mf[df + j := x, df + j + 1 := y, df + j + 2 := z])"
proof -
  have 1: "agree s n df i (Suc j) (ma[s + j := x]) (mf[df + j := x])"
    using agree_write1 [OF a _ _ _ d, where x = x] la lf ji by simp
  have 2: "agree s n df i (Suc (Suc j)) (ma[s + j := x, s + Suc j := y]) (mf[df + j := x, df + Suc j := y])"
    using agree_write1 [OF 1 _ _ _ d, where x = y] la lf ji by simp
  have 3: "agree s n df i (Suc (Suc (Suc j)))
             (ma[s + j := x, s + Suc j := y, s + Suc (Suc j) := z])
             (mf[df + j := x, df + Suc j := y, df + Suc (Suc j) := z])"
    using agree_write1 [OF 2 _ _ _ d, where x = z] la lf ji by simp
  have e: "j + 3 = Suc (Suc (Suc j))" "s + j + 1 = s + Suc j" "s + j + 2 = s + Suc (Suc j)"
    "df + j + 1 = df + Suc j" "df + j + 2 = df + Suc (Suc j)"
    by simp_all
  show ?thesis unfolding e by (rule 3)
qed

lemma sim_quads:
  assumes "agree s n df (4 * i) (3 * i) ma mf" and "4 * (i + k) \<le> n"
    and "s + n \<le> length ma" and "s + n \<le> df" and "df + 3 * (i + k) \<le> length mf"
  shows "snd (decode_quads ma s s i k) = snd (decode_quads mf df s i k) \<and>
         (snd (decode_quads ma s s i k) \<longrightarrow>
            agree s n df (4 * (i + k)) (3 * (i + k))
              (fst (decode_quads ma s s i k)) (fst (decode_quads mf df s i k)))"
  using assms
proof (induction k arbitrary: i ma mf)
  case 0
  then show ?case by simp
next
  case (Suc k)
  have a: "agree s n df (4 * i) (3 * i) ma mf" by (rule Suc.prems(1))
  have r0: "ma ! (s + 4 * i) = mf ! (s + 4 * i)"
    using agree_read [OF a, of "4 * i"] Suc.prems(2) by simp
  have r1: "ma ! (s + 4 * i + 1) = mf ! (s + 4 * i + 1)"
    using agree_read [OF a, of "4 * i + 1"] Suc.prems(2) by (simp add: add.assoc)
  have r2: "ma ! (s + 4 * i + 2) = mf ! (s + 4 * i + 2)"
    using agree_read [OF a, of "4 * i + 2"] Suc.prems(2) by (simp add: add.assoc)
  have r3: "ma ! (s + 4 * i + 3) = mf ! (s + 4 * i + 3)"
    using agree_read [OF a, of "4 * i + 3"] Suc.prems(2) by (simp add: add.assoc)
  show ?case
  proof (cases "\<exists>x y z w. b64val (mf ! (s + 4 * i)) = Some x \<and> b64val (mf ! (s + 4 * i + 1)) = Some y \<and>
                  b64val (mf ! (s + 4 * i + 2)) = Some z \<and> b64val (mf ! (s + 4 * i + 3)) = Some w")
    case False
    then show ?thesis using r0 r1 r2 r3
      by (auto split: option.splits)
  next
    case True
    then obtain x y z w where v: "b64val (mf ! (s + 4 * i)) = Some x"
      "b64val (mf ! (s + 4 * i + 1)) = Some y" "b64val (mf ! (s + 4 * i + 2)) = Some z"
      "b64val (mf ! (s + 4 * i + 3)) = Some w" by blast
    let ?b0 = "char_of (x * 4 + y div 16)" and ?b1 = "char_of ((y mod 16) * 16 + z div 4)"
      and ?b2 = "char_of ((z mod 4) * 64 + w)"
    let ?ma = "ma[s + 3 * i := ?b0, s + 3 * i + 1 := ?b1, s + 3 * i + 2 := ?b2]"
    let ?mf = "mf[df + 3 * i := ?b0, df + 3 * i + 1 := ?b1, df + 3 * i + 2 := ?b2]"
    have a4: "agree s n df (4 * Suc i) (3 * i) ma mf"
      using agree_mono [OF a, of "4 * Suc i"] by simp
    have a': "agree s n df (4 * Suc i) (3 * i + 3) ?ma ?mf"
      using agree_write3 [OF a4 _ _ _ Suc.prems(4), where x = ?b0 and y = ?b1 and z = ?b2] Suc.prems(2,3,5) by simp
    then have a'': "agree s n df (4 * Suc i) (3 * Suc i) ?ma ?mf" by (simp add: add.commute)
    have ih: "snd (decode_quads ?ma s s (Suc i) k) = snd (decode_quads ?mf df s (Suc i) k) \<and>
         (snd (decode_quads ?ma s s (Suc i) k) \<longrightarrow>
            agree s n df (4 * (Suc i + k)) (3 * (Suc i + k))
              (fst (decode_quads ?ma s s (Suc i) k)) (fst (decode_quads ?mf df s (Suc i) k)))"
      using Suc.IH [OF a''] Suc.prems(2,3,4,5) by simp
    have ea: "decode_quads ma s s i (Suc k) = decode_quads ?ma s s (Suc i) k"
      using v r0 r1 r2 r3 by simp
    have ef: "decode_quads mf df s i (Suc k) = decode_quads ?mf df s (Suc i) k"
      using v by simp
    show ?thesis unfolding ea ef using ih by simp
  qed
qed


lemma agree_take:
  assumes "agree s n df i k ma mf" and "s + k \<le> length ma" and "df + k \<le> length mf"
  shows "take k (drop s ma) = take k (drop df mf)"
proof (rule nth_equalityI)
  show "length (take k (drop s ma)) = length (take k (drop df mf))"
    using assms(2,3) by simp
next
  fix u assume "u < length (take k (drop s ma))"
  then have u: "u < k" by simp
  then have "ma ! (s + u) = mf ! (df + u)" using assms(1) by (simp add: agree_def)
  then show "take k (drop s ma) ! u = take k (drop df mf) ! u"
    using u assms(2,3) by simp
qed

lemma DecodedLen_cases:
  "DecodedLen (4 * q) = 3 * q" "DecodedLen (4 * q + 2) = 3 * q + 1"
  "DecodedLen (4 * q + 3) = 3 * q + 2"
  by (simp_all add: DecodedLen_def)

lemma sim_tail:
  assumes a: "agree s n df (4 * q) (3 * q) ma mf" and n: "n = 4 * q + r" and r: "r < 4"
    and la: "s + n \<le> length ma" and d: "s + n \<le> df" and lf: "df + DecodedLen n \<le> length mf"
  shows "case snd (decode_tail ma s s q r) of
           Inl e \<Rightarrow> snd (decode_tail mf df s q r) = Inl e
         | Inr k \<Rightarrow> snd (decode_tail mf df s q r) = Inr k \<and>
             take k (drop s (fst (decode_tail ma s s q r))) =
             take k (drop df (fst (decode_tail mf df s q r)))"
proof -
  consider "r = 0" | "r = 1" | "r = 2" | "r = 3" using r by linarith
  then show ?thesis
  proof cases
    case 1
    have "take (3 * q) (drop s ma) = take (3 * q) (drop df mf)"
      using agree_take [OF a] la lf n 1 DecodedLen_cases(1) [of q] by simp
    then show ?thesis using 1 by (simp add: decode_tail_def)
  next
    case 2
    then show ?thesis by (simp add: decode_tail_def)
  next
    case 3
    have r0: "ma ! (s + 4 * q) = mf ! (s + 4 * q)"
      using agree_read [OF a, of "4 * q"] n 3 by simp
    have r1: "ma ! (s + 4 * q + 1) = mf ! (s + 4 * q + 1)"
      using agree_read [OF a, of "4 * q + 1"] n 3 by (simp add: add.assoc)
    have dl: "DecodedLen n = 3 * q + 1" using n 3 DecodedLen_cases(2) by simp
    show ?thesis
    proof (cases "\<exists>x y. b64val (mf ! (s + 4 * q)) = Some x \<and> b64val (mf ! (s + 4 * q + 1)) = Some y")
      case False
      then show ?thesis using 3 r0 r1 by (auto simp add: decode_tail_def split: option.splits)
    next
      case True
      then obtain x y where v: "b64val (mf ! (s + 4 * q)) = Some x"
        "b64val (mf ! (s + 4 * q + 1)) = Some y" by blast
      let ?b0 = "char_of (x * 4 + y div 16)"
      have a2: "agree s n df n (3 * q) ma mf" using agree_mono [OF a, of n] n by simp
      have a3: "agree s n df n (Suc (3 * q)) (ma[s + 3 * q := ?b0]) (mf[df + 3 * q := ?b0])"
        using agree_write1 [OF a2 _ _ _ d, where x = ?b0] la lf n 3 dl by simp
      have "take (Suc (3 * q)) (drop s (ma[s + 3 * q := ?b0])) =
            take (Suc (3 * q)) (drop df (mf[df + 3 * q := ?b0]))"
        using agree_take [OF a3] la lf n 3 dl by simp
      then show ?thesis using 3 v r0 r1 by (simp add: decode_tail_def)
    qed
  next
    case 4
    have r0: "ma ! (s + 4 * q) = mf ! (s + 4 * q)"
      using agree_read [OF a, of "4 * q"] n 4 by simp
    have r1: "ma ! (s + 4 * q + 1) = mf ! (s + 4 * q + 1)"
      using agree_read [OF a, of "4 * q + 1"] n 4 by (simp add: add.assoc)
    have r2: "ma ! (s + 4 * q + 2) = mf ! (s + 4 * q + 2)"
      using agree_read [OF a, of "4 * q + 2"] n 4 by (simp add: add.assoc)
    have dl: "DecodedLen n = 3 * q + 2" using n 4 DecodedLen_cases(3) by simp
    show ?thesis
    proof (cases "\<exists>x y z. b64val (mf ! (s + 4 * q)) = Some x \<and> b64val (mf ! (s + 4 * q + 1)) = Some y
                     \<and> b64val (mf ! (s + 4 * q + 2)) = Some z")
      case False
      then show ?thesis using 4 r0 r1 r2 by (auto simp add: decode_tail_def split: option.splits)
    next
      case True
      then obtain x y z where v: "b64val (mf ! (s + 4 * q)) = Some x"
        "b64val (mf ! (s + 4 * q + 1)) = Some y" "b64val (mf ! (s + 4 * q + 2)) = Some z" by blast
      let ?b0 = "char_of (x * 4 + y div 16)" and ?b1 = "char_of ((y mod 16) * 16 + z div 4)"
      have a2: "agree s n df n (3 * q) ma mf" using agree_mono [OF a, of n] n by simp
      have a3: "agree s n df n (Suc (3 * q)) (ma[s + 3 * q := ?b0]) (mf[df + 3 * q := ?b0])"
        using agree_write1 [OF a2 _ _ _ d, where x = ?b0] la lf n 4 dl by simp
      have a4: "agree s n df n (Suc (Suc (3 * q)))
                  (ma[s + 3 * q := ?b0, s + Suc (3 * q) := ?b1])
                  (mf[df + 3 * q := ?b0, df + Suc (3 * q) := ?b1])"
        using agree_write1 [OF a3 _ _ _ d, where x = ?b1] la lf n 4 dl by simp
      have "take (Suc (Suc (3 * q))) (drop s (ma[s + 3 * q := ?b0, s + Suc (3 * q) := ?b1])) =
            take (Suc (Suc (3 * q))) (drop df (mf[df + 3 * q := ?b0, df + Suc (3 * q) := ?b1]))"
        using agree_take [OF a4] la lf n 4 dl by simp
      then show ?thesis using 4 v r0 r1 r2 by (simp add: decode_tail_def)
    qed
  qed
qed


lemma B64Decode_bytes_True:
  "B64Decode_bytes m b64 True =
     (case decode_quads m (ptr b64) (ptr b64) 0 (len b64 div 4) of
        (m1, False) \<Rightarrow> Inl CorruptInput
      | (m1, True) \<Rightarrow>
          (case decode_tail m1 (ptr b64) (ptr b64) (len b64 div 4) (len b64 mod 4) of
             (m2, Inl e) \<Rightarrow> Inl e
           | (m2, Inr k) \<Rightarrow> Inr (take k (drop (ptr b64) m2))))"
  by (simp add: B64Decode_bytes_def B64Decode_def Decode_def sub_def rd_def
      split: prod.splits bool.splits sum.splits)

lemma B64Decode_bytes_False:
  "B64Decode_bytes m b64 False =
     (case decode_quads (m @ replicate (DecodedLen (len b64)) (CHR 0x00)) (length m) (ptr b64) 0
             (len b64 div 4) of
        (m1, False) \<Rightarrow> Inl CorruptInput
      | (m1, True) \<Rightarrow>
          (case decode_tail m1 (length m) (ptr b64) (len b64 div 4) (len b64 mod 4) of
             (m2, Inl e) \<Rightarrow> Inl e
           | (m2, Inr k) \<Rightarrow> Inr (take k (drop (length m) m2))))"
  by (simp add: B64Decode_bytes_def B64Decode_def Decode_def make_bytes_def sub_def rd_def
      split: prod.splits bool.splits sum.splits)

text \<open>
  C8. For a slice that lies inside the store, \<^verbatim>\<open>B64Decode\<close> with \<^verbatim>\<open>reuse=false\<close> and
  \<^verbatim>\<open>B64Decode\<close> with \<^verbatim>\<open>reuse=true\<close>, each started on the same store, fail on the same
  inputs with the same error, and on success the bytes read through the returned slice
  are the same.
\<close>

theorem B64Decode_reuse_equivalent:
  assumes "inside m b64"
  shows "B64Decode_bytes m b64 False = B64Decode_bytes m b64 True"
proof -
  let ?s = "ptr b64" and ?n = "len b64" and ?q = "len b64 div 4" and ?r = "len b64 mod 4"
    and ?df = "length m" and ?mf0 = "m @ replicate (DecodedLen (len b64)) (CHR 0x00)"
  have la: "?s + ?n \<le> length m" using assms by (simp add: inside_def)
  have d: "?s + ?n \<le> ?df" using la by simp
  have lf0: "length ?mf0 = ?df + DecodedLen ?n" by simp
  have nq: "?n = 4 * ?q + ?r" "?r < 4" by simp_all
  have q3: "3 * ?q \<le> DecodedLen ?n" by (simp add: DecodedLen_def)
  have a0: "agree ?s ?n ?df (4 * 0) (3 * 0) m ?mf0"
    using la by (simp add: agree_def nth_append)
  obtain ma oka where A: "decode_quads m ?s ?s 0 ?q = (ma, oka)"
    by (cases "decode_quads m ?s ?s 0 ?q")
  obtain mf okf where F: "decode_quads ?mf0 ?df ?s 0 ?q = (mf, okf)"
    by (cases "decode_quads ?mf0 ?df ?s 0 ?q")
  have lma: "length ma = length m" using decode_quads_length [of m ?s ?s 0 ?q] A by simp
  have lmf: "length mf = ?df + DecodedLen ?n"
    using decode_quads_length [of ?mf0 ?df ?s 0 ?q] F by simp
  have sq: "oka = okf \<and> (oka \<longrightarrow> agree ?s ?n ?df (4 * ?q) (3 * ?q) ma mf)"
    using sim_quads [OF a0 _ la d, where k = ?q] q3 A F by simp
  show ?thesis
  proof (cases oka)
    case False
    then show ?thesis using sq A F
      by (simp add: B64Decode_bytes_True B64Decode_bytes_False)
  next
    case True
    then have ag: "agree ?s ?n ?df (4 * ?q) (3 * ?q) ma mf" and okf: okf using sq by simp_all
    have t: "case snd (decode_tail ma ?s ?s ?q ?r) of
           Inl e \<Rightarrow> snd (decode_tail mf ?df ?s ?q ?r) = Inl e
         | Inr k \<Rightarrow> snd (decode_tail mf ?df ?s ?q ?r) = Inr k \<and>
             take k (drop ?s (fst (decode_tail ma ?s ?s ?q ?r))) =
             take k (drop ?df (fst (decode_tail mf ?df ?s ?q ?r)))"
      using sim_tail [OF ag nq _ d] la lma lmf by simp
    have ea: "B64Decode_bytes m b64 True =
        (case decode_tail ma ?s ?s ?q ?r of (m2, Inl e) \<Rightarrow> Inl e
         | (m2, Inr k) \<Rightarrow> Inr (take k (drop ?s m2)))"
      using A True by (simp add: B64Decode_bytes_True)
    have ef: "B64Decode_bytes m b64 False =
        (case decode_tail mf ?df ?s ?q ?r of (m2, Inl e) \<Rightarrow> Inl e
         | (m2, Inr k) \<Rightarrow> Inr (take k (drop ?df m2)))"
      using F okf by (simp add: B64Decode_bytes_False)
    show ?thesis unfolding ea ef using t
      by (cases "decode_tail ma ?s ?s ?q ?r"; cases "decode_tail mf ?df ?s ?q ?r")
        (auto split: sum.splits)
  qed
qed

theorem B64Decode_reuse_equivalent_witness:
  "inside ''..eyJ1c3IiOiJqYW5lIn0'' \<lparr>ptr = 2, len = 19\<rparr> \<and>
   B64Decode_bytes ''..eyJ1c3IiOiJqYW5lIn0'' \<lparr>ptr = 2, len = 19\<rparr> False =
   B64Decode_bytes ''..eyJ1c3IiOiJqYW5lIn0'' \<lparr>ptr = 2, len = 19\<rparr> True \<and>
   B64Decode_bytes ''..eyJ1c3IiOiJqYW5lIn0'' \<lparr>ptr = 2, len = 19\<rparr> True =
     Inr [CHR ''{'', CHR 0x22, CHR ''u'', CHR ''s'', CHR ''r'', CHR 0x22, CHR '':'', CHR 0x22,
          CHR ''j'', CHR ''a'', CHR ''n'', CHR ''e'', CHR 0x22, CHR ''}'']"
proof -
  have h: "inside ''..eyJ1c3IiOiJqYW5lIn0'' \<lparr>ptr = 2, len = 19\<rparr>" by (simp add: inside_def)
  have v: "B64Decode_bytes ''..eyJ1c3IiOiJqYW5lIn0'' \<lparr>ptr = 2, len = 19\<rparr> True =
     Inr [CHR ''{'', CHR 0x22, CHR ''u'', CHR ''s'', CHR ''r'', CHR 0x22, CHR '':'', CHR 0x22,
          CHR ''j'', CHR ''a'', CHR ''n'', CHR ''e'', CHR 0x22, CHR ''}'']"
    by code_simp
  show ?thesis by (intro conjI h v B64Decode_reuse_equivalent [OF h])
qed


end
